theory Spec2Isabelle
  imports Main "HOL-Library.Word"
begin

section \<open>Data model of the JNI bridge\<close>

text \<open>
  The bridge \<^verbatim>\<open>enchant_net.cpp\<close> sits between the Java class \<^verbatim>\<open>NativeBridge\<close> and the
  native library declared in \<^verbatim>\<open>easytier.h\<close>. Java references are optional values
  (\<open>None\<close> is \<^verbatim>\<open>null\<close>); a \<^verbatim>\<open>const char*\<close> handed \<^emph>\<open>to\<close> the library is the optional text
  it points to (\<open>None\<close> is \<^verbatim>\<open>nullptr\<close>); a \<^verbatim>\<open>const char*\<close> handed \<^emph>\<open>out\<close> by the library is
  an optional address into the store of strings the library has allocated, because the
  bridge has to give exactly these addresses back to \<^verbatim>\<open>free_string\<close>.
\<close>

type_synonym jint = "32 word"
type_synonym jstring = "string option"
type_synonym c_str = "string option"
type_synonym addr = nat
type_synonym owned_ptr = "addr option"

text \<open>
  \<^verbatim>\<open>struct KeyValuePair { const char* key; const char* value; }\<close>. The second field is
  \<open>value'\<close> here, \<open>value\<close> being a keyword of the theory language.
\<close>

record KeyValuePair =
  key :: owned_ptr
  value' :: owned_ptr

text \<open>
  The Java class \<^verbatim>\<open>NativeBridge$NetworkInfo\<close>, built through its constructor
  \<^verbatim>\<open>(Ljava/lang/String;Ljava/lang/String;)V\<close>.
\<close>

record NetworkInfo =
  info_key :: jstring
  info_value :: jstring

text \<open>
  The ways a run can go wrong. The first three are undefined behaviour of the C++: using a
  \<^verbatim>\<open>std::vector\<close> past its end, reading a string that has been released, releasing an
  address that holds no live string. The fourth is the Java exception of an array access
  out of range, which a JNI call leaves pending in the JVM. The fifth is the C++ exception
  (\<^verbatim>\<open>std::bad_alloc\<close> or \<^verbatim>\<open>std::length_error\<close>) of a vector that cannot be built; the
  bridge has no handler, so it leaves the \<^verbatim>\<open>extern "C"\<close> function.
\<close>

datatype error =
  OutOfBounds | UseAfterFree | InvalidFree | ArrayIndexOutOfBoundsException | BadAlloc

text \<open>
  Every call the bridge makes on native memory, on the library or on a descriptor.
  \<open>Sys_close\<close> and \<open>Sys_dup\<close> stand for \<^verbatim>\<open>close(2)\<close> and \<^verbatim>\<open>dup(2)\<close>.
\<close>

datatype call =
    JNI_GetStringUTFChars string
  | JNI_ReleaseStringUTFChars string
  | JNI_NewStringUTF addr
  | Lib_parse_config c_str
  | Lib_run_network_instance c_str
  | Lib_set_tun_fd c_str jint
  | Lib_retain_network_instance "c_str list option" nat
  | Lib_collect_network_infos nat
  | Lib_get_error_msg
  | Lib_free_string addr
  | Sys_close jint
  | Sys_dup jint

text \<open>
  The world a bridge function runs in: the opaque state of the library (registry, error
  slot), the strings the library has handed out and not yet taken back, the calls made
  so far, oldest first, and the length of the longest \<^verbatim>\<open>std::vector<KeyValuePair>\<close> the
  platform and its allocator will build.
\<close>

record 'l world =
  lib :: 'l
  heap :: "addr \<rightharpoonup> string"
  trace :: "call list"
  vector_room :: nat

text \<open>
  The library behind \<^verbatim>\<open>easytier.h\<close> is a prebuilt binary: its functions are parameters.
  \<open>collect_network_infos\<close> gets the buffer length and answers with the records it writes
  from index 0 on and with its return value; \<open>get_error_msg\<close> answers with what it leaves in
  the out-pointer. Both may allocate strings.
\<close>

record 'l easytier =
  set_tun_fd :: "c_str \<Rightarrow> jint \<Rightarrow> 'l \<Rightarrow> jint \<times> 'l"
  parse_config :: "c_str \<Rightarrow> 'l \<Rightarrow> jint \<times> 'l"
  run_network_instance :: "c_str \<Rightarrow> 'l \<Rightarrow> jint \<times> 'l"
  retain_network_instance :: "c_str list option \<Rightarrow> nat \<Rightarrow> 'l \<Rightarrow> jint \<times> 'l"
  collect_network_infos ::
    "nat \<Rightarrow> 'l \<Rightarrow> (addr \<rightharpoonup> string) \<Rightarrow> (KeyValuePair list \<times> jint) \<times> 'l \<times> (addr \<rightharpoonup> string)"
  get_error_msg :: "'l \<Rightarrow> (addr \<rightharpoonup> string) \<Rightarrow> owned_ptr \<times> 'l \<times> (addr \<rightharpoonup> string)"

type_synonym ('a, 'l) jni = "'l world \<Rightarrow> error + ('a \<times> 'l world)"

definition emit :: "call \<Rightarrow> 'l world \<Rightarrow> 'l world" where
  "emit c w = w\<lparr>trace := trace w @ [c]\<rparr>"

section \<open>JNI string functions\<close>

text \<open>
  The JVM is taken to have memory left: \<^verbatim>\<open>GetStringUTFChars\<close> and \<^verbatim>\<open>NewStringUTF\<close> do not
  fail for lack of it, and the text is carried over unchanged.
\<close>

definition GetStringUTFChars :: "string \<Rightarrow> 'l world \<Rightarrow> c_str \<times> 'l world" where
  "GetStringUTFChars s w = (Some s, emit (JNI_GetStringUTFChars s) w)"

definition ReleaseStringUTFChars :: "string \<Rightarrow> 'l world \<Rightarrow> 'l world" where
  "ReleaseStringUTFChars s w = emit (JNI_ReleaseStringUTFChars s) w"

definition NewStringUTF :: "addr \<Rightarrow> (jstring, 'l) jni" where
  "NewStringUTF p w =
     (case heap w p of
        None \<Rightarrow> Inl UseAfterFree
      | Some s \<Rightarrow> Inr (Some s, emit (JNI_NewStringUTF p) w))"

section \<open>The status-returning bridge functions\<close>

definition parseConfig :: "'l easytier \<Rightarrow> jstring \<Rightarrow> (jint, 'l) jni" where
  "parseConfig L cfg w =
     (let (c_cfg, w1) = (case cfg of Some s \<Rightarrow> GetStringUTFChars s w | None \<Rightarrow> (None, w));
          (ret, l') = parse_config L c_cfg (lib w1);
          w2 = emit (Lib_parse_config c_cfg) (w1\<lparr>lib := l'\<rparr>);
          w3 = (case c_cfg of Some s \<Rightarrow> ReleaseStringUTFChars s w2 | None \<Rightarrow> w2)
      in Inr (ret, w3))"

definition runNetworkInstance :: "'l easytier \<Rightarrow> jstring \<Rightarrow> (jint, 'l) jni" where
  "runNetworkInstance L cfg w =
     (let (c_cfg, w1) = (case cfg of Some s \<Rightarrow> GetStringUTFChars s w | None \<Rightarrow> (None, w));
          (ret, l') = run_network_instance L c_cfg (lib w1);
          w2 = emit (Lib_run_network_instance c_cfg) (w1\<lparr>lib := l'\<rparr>);
          w3 = (case c_cfg of Some s \<Rightarrow> ReleaseStringUTFChars s w2 | None \<Rightarrow> w2)
      in Inr (ret, w3))"

definition setTunFd :: "'l easytier \<Rightarrow> jstring \<Rightarrow> jint \<Rightarrow> (jint, 'l) jni" where
  "setTunFd L instName fd w =
     (let (c_name, w1) =
            (case instName of Some s \<Rightarrow> GetStringUTFChars s w | None \<Rightarrow> (None, w));
          (ret, l') = set_tun_fd L c_name fd (lib w1);
          w2 = emit (Lib_set_tun_fd c_name fd) (w1\<lparr>lib := l'\<rparr>);
          w3 = (case c_name of Some s \<Rightarrow> ReleaseStringUTFChars s w2 | None \<Rightarrow> w2)
      in Inr (ret, w3))"

section \<open>Vectors and Java arrays\<close>

text \<open>\<^verbatim>\<open>std::vector::operator[]\<close>, read and write: no bounds check, undefined out of range.\<close>

definition vec_get :: "'a list \<Rightarrow> nat \<Rightarrow> error + 'a" where
  "vec_get v i = (if i < length v then Inr (v ! i) else Inl OutOfBounds)"

definition vec_set :: "'a list \<Rightarrow> nat \<Rightarrow> 'a \<Rightarrow> error + 'a list" where
  "vec_set v i x = (if i < length v then Inr (v[i := x]) else Inl OutOfBounds)"

definition GetObjectArrayElement :: "'a list \<Rightarrow> nat \<Rightarrow> error + 'a" where
  "GetObjectArrayElement a i =
     (if i < length a then Inr (a ! i) else Inl ArrayIndexOutOfBoundsException)"

definition SetObjectArrayElement :: "'a list \<Rightarrow> nat \<Rightarrow> 'a \<Rightarrow> error + 'a list" where
  "SetObjectArrayElement a i x =
     (if i < length a then Inr (a[i := x]) else Inl ArrayIndexOutOfBoundsException)"

section \<open>retainNetworkInstance\<close>

text \<open>
  The two vectors of this function are as long as the Java array it is given, which the
  JVM already holds; building them is taken to succeed, as the JVM's own allocations are.
  The first loop: fetch each element and take its characters.
\<close>

function retain_marshal_loop ::
  "jstring list \<Rightarrow> nat \<Rightarrow> nat \<Rightarrow> jstring list \<Rightarrow> c_str list \<Rightarrow>
   (jstring list \<times> c_str list, 'l) jni" where
  "retain_marshal_loop names i n jnames c_names w =
     (if i < n then
        (case GetObjectArrayElement names i of Inl e \<Rightarrow> Inl e | Inr s \<Rightarrow>
        (case vec_set jnames i s of Inl e \<Rightarrow> Inl e | Inr jnames1 \<Rightarrow>
        (let (c, w1) = (case s of Some t \<Rightarrow> GetStringUTFChars t w | None \<Rightarrow> (None, w)) in
        (case vec_set c_names i c of Inl e \<Rightarrow> Inl e | Inr c_names1 \<Rightarrow>
           retain_marshal_loop names (Suc i) n jnames1 c_names1 w1))))
      else Inr ((jnames, c_names), w))"
  by pat_completeness auto
termination
  by (relation "measure (\<lambda>(names, i, n, jnames, c_names, w). n - i)") auto

text \<open>
  The second loop: give the characters back. Both vectors have \<open>n\<close> elements, so reading
  \<open>c_names[i]\<close> before the test of \<open>jnames[i]\<close> changes nothing. \<^verbatim>\<open>DeleteLocalRef\<close> only
  tells the JVM that a reference is no longer needed; it is not modelled.
\<close>

function retain_release_loop ::
  "nat \<Rightarrow> nat \<Rightarrow> jstring list \<Rightarrow> c_str list \<Rightarrow> (unit, 'l) jni" where
  "retain_release_loop i n jnames c_names w =
     (if i < n then
        (case vec_get jnames i of Inl e \<Rightarrow> Inl e | Inr j \<Rightarrow>
        (case vec_get c_names i of Inl e \<Rightarrow> Inl e | Inr c \<Rightarrow>
        (let w1 = (case (j, c) of (Some s, Some t) \<Rightarrow> ReleaseStringUTFChars s w | _ \<Rightarrow> w) in
           retain_release_loop (Suc i) n jnames c_names w1)))
      else Inr ((), w))"
  by pat_completeness auto
termination
  by (relation "measure (\<lambda>(i, n, jnames, c_names, w). n - i)") auto

definition retainNetworkInstance :: "'l easytier \<Rightarrow> jstring list option \<Rightarrow> (jint, 'l) jni" where
  "retainNetworkInstance L names w =
     (let n = (case names of Some a \<Rightarrow> length a | None \<Rightarrow> 0) in
      (case retain_marshal_loop (case names of Some a \<Rightarrow> a | None \<Rightarrow> []) 0 n
              (replicate n None) (replicate n None) w of
         Inl e \<Rightarrow> Inl e
       | Inr ((jnames, c_names), w1) \<Rightarrow>
          (let names_ptr = (if n \<noteq> 0 then Some c_names else None);
               (ret, l') = retain_network_instance L names_ptr n (lib w1);
               w2 = emit (Lib_retain_network_instance names_ptr n) (w1\<lparr>lib := l'\<rparr>)
           in (case retain_release_loop 0 n jnames c_names w2 of
                 Inl e \<Rightarrow> Inl e
               | Inr (u, w3) \<Rightarrow> Inr (ret, w3)))))"

section \<open>Releasing strings\<close>

text \<open>
  Modelled from the spec: the body of \<^verbatim>\<open>free_string\<close> is in the prebuilt library, only its
  declaration is in \<^verbatim>\<open>easytier.h\<close>. It is the release operation of section 6: it takes
  back a string the library has handed out; calling it on anything else breaks the
  contract.
\<close>

definition free_string :: "addr \<Rightarrow> (unit, 'l) jni" where
  "free_string p w =
     (case heap w p of
        None \<Rightarrow> Inl InvalidFree
      | Some s \<Rightarrow> Inr ((), emit (Lib_free_string p) (w\<lparr>heap := (heap w)(p := None)\<rparr>)))"

section \<open>getNetworkInfos\<close>

definition null_pair :: KeyValuePair where
  "null_pair = \<lparr>key = None, value' = None\<rparr>"

text \<open>The buffer after the library has written the records \<open>ws\<close> from index 0 on.\<close>

definition written :: "KeyValuePair list \<Rightarrow> KeyValuePair list \<Rightarrow> KeyValuePair list" where
  "written buf ws = take (length buf) ws @ drop (length ws) buf"

text \<open>
  The loop over \<^verbatim>\<open>i < count\<close> that copies each record out and releases its strings. The
  array \<open>arr\<close> holds \<open>None\<close> where \<^verbatim>\<open>NewObjectArray\<close> has put \<^verbatim>\<open>null\<close>. \<^verbatim>\<open>FindClass\<close>,
  \<^verbatim>\<open>GetMethodID\<close>, \<^verbatim>\<open>NewObjectArray\<close> and \<^verbatim>\<open>NewObject\<close> are taken to succeed.
\<close>

function copy_loop ::
  "KeyValuePair list \<Rightarrow> nat \<Rightarrow> nat \<Rightarrow> NetworkInfo option list \<Rightarrow>
   (NetworkInfo option list, 'l) jni" where
  "copy_loop buf i count arr w =
     (if i < count then
        (case vec_get buf i of Inl e \<Rightarrow> Inl e | Inr kv \<Rightarrow>
        (case (case key kv of Some p \<Rightarrow> NewStringUTF p w | None \<Rightarrow> Inr (None, w)) of
           Inl e \<Rightarrow> Inl e | Inr (jkey, w1) \<Rightarrow>
        (case (case value' kv of Some p \<Rightarrow> NewStringUTF p w1 | None \<Rightarrow> Inr (None, w1)) of
           Inl e \<Rightarrow> Inl e | Inr (jval, w2) \<Rightarrow>
        (case SetObjectArrayElement arr i (Some \<lparr>info_key = jkey, info_value = jval\<rparr>) of
           Inl e \<Rightarrow> Inl e | Inr arr1 \<Rightarrow>
        (case (case key kv of Some p \<Rightarrow> free_string p w2 | None \<Rightarrow> Inr ((), w2)) of
           Inl e \<Rightarrow> Inl e | Inr (u, w3) \<Rightarrow>
        (case (case value' kv of Some p \<Rightarrow> free_string p w3 | None \<Rightarrow> Inr ((), w3)) of
           Inl e \<Rightarrow> Inl e | Inr (u', w4) \<Rightarrow>
           copy_loop buf (Suc i) count arr1 w4))))))
      else Inr (arr, w))"
  by pat_completeness auto
termination
  by (relation "measure (\<lambda>(buf, i, count, arr, w). count - i)") auto

text \<open>\<^verbatim>\<open>size_t cap = (maxLen > 0 ? (size_t)maxLen : 256);\<close>\<close>

definition cap :: "jint \<Rightarrow> nat" where
  "cap maxLen = (if 0 < sint maxLen then nat (sint maxLen) else 256)"

text \<open>
  \<^verbatim>\<open>std::vector<KeyValuePair> buf(cap);\<close> builds the buffer of \<open>cap\<close> null records, or
  throws when \<open>cap\<close> is more than can be built. The length comes straight from the
  argument \<open>maxLen\<close>, up to \<open>2147483647\<close> records.
\<close>

definition new_buffer :: "nat \<Rightarrow> 'l world \<Rightarrow> error + KeyValuePair list" where
  "new_buffer n w = (if vector_room w < n then Inl BadAlloc else Inr (replicate n null_pair))"

definition getNetworkInfos :: "'l easytier \<Rightarrow> jint \<Rightarrow> (NetworkInfo option list, 'l) jni" where
  "getNetworkInfos L maxLen w =
     (case new_buffer (cap maxLen) w of
        Inl e \<Rightarrow> Inl e
      | Inr buf0 \<Rightarrow>
         (let ((ws, count), l', h') = collect_network_infos L (length buf0) (lib w) (heap w);
              buf = written buf0 ws;
              w1 = emit (Lib_collect_network_infos (length buf0)) (w\<lparr>lib := l', heap := h'\<rparr>)
          in if sint count \<le> 0 then Inr ([], w1)
             else copy_loop buf 0 (nat (sint count)) (replicate (nat (sint count)) None) w1))"

section \<open>getLastError\<close>

definition getLastError :: "'l easytier \<Rightarrow> (jstring, 'l) jni" where
  "getLastError L w =
     (let (err, l', h') = get_error_msg L (lib w) (heap w);
          w1 = emit Lib_get_error_msg (w\<lparr>lib := l', heap := h'\<rparr>)
      in case err of
           None \<Rightarrow> Inr (None, w1)
         | Some p \<Rightarrow>
             (case NewStringUTF p w1 of Inl e \<Rightarrow> Inl e | Inr (jerr, w2) \<Rightarrow>
             (case free_string p w2 of Inl e \<Rightarrow> Inl e | Inr (u, w3) \<Rightarrow> Inr (jerr, w3))))"

section \<open>Vocabulary for stating properties\<close>

text \<open>
  Nothing from here on is code of the bridge: these are the notions the properties are
  stated in. \<open>non_null\<close> keeps the non-null entries of a list; \<open>ptrs\<close> are the non-null
  pointers of a record, key first; \<open>owned\<close> those of a list of records, in order.
\<close>

primrec non_null :: "'a option list \<Rightarrow> 'a list" where
  "non_null [] = []"
| "non_null (x # xs) = (case x of None \<Rightarrow> non_null xs | Some a \<Rightarrow> a # non_null xs)"

definition ptrs :: "KeyValuePair \<Rightarrow> addr list" where
  "ptrs kv = non_null [key kv, value' kv]"

definition owned :: "KeyValuePair list \<Rightarrow> addr list" where
  "owned recs = concat (map ptrs recs)"

text \<open>
  What copying the record \<open>kv\<close> out amounts to: the calls it takes, the object it yields
  from the store \<open>h\<close>, and the world after the strings \<open>ps\<close> are released by the calls
  \<open>cs\<close>.
\<close>

definition record_calls :: "KeyValuePair \<Rightarrow> call list" where
  "record_calls kv = map JNI_NewStringUTF (ptrs kv) @ map Lib_free_string (ptrs kv)"

definition mk_info :: "(addr \<rightharpoonup> string) \<Rightarrow> KeyValuePair \<Rightarrow> NetworkInfo" where
  "mk_info h kv = \<lparr>info_key = Option.bind (key kv) h, info_value = Option.bind (value' kv) h\<rparr>"

definition released :: "addr list \<Rightarrow> call list \<Rightarrow> 'l world \<Rightarrow> 'l world" where
  "released ps cs w = w\<lparr>heap := heap w |` (- set ps), trace := trace w @ cs\<rparr>"

text \<open>
  The strings of a record, or of a list of records, are properly owned: no pointer occurs
  twice and each one is the address of a live string.
\<close>

definition record_ok :: "(addr \<rightharpoonup> string) \<Rightarrow> KeyValuePair \<Rightarrow> bool" where
  "record_ok h kv = (distinct (ptrs kv) \<and> set (ptrs kv) \<subseteq> dom h)"

definition slice :: "nat \<Rightarrow> nat \<Rightarrow> 'a list \<Rightarrow> 'a list" where
  "slice i n xs = drop i (take n xs)"

definition records_ok :: "(addr \<rightharpoonup> string) \<Rightarrow> KeyValuePair list \<Rightarrow> bool" where
  "records_ok h recs = (distinct (owned recs) \<and> set (owned recs) \<subseteq> dom h)"

text \<open>
  On a list of calls: the addresses passed to \<open>free_string\<close>, in order; the addresses a
  call reads or releases; and that no call touches an address released earlier in the list.
\<close>

primrec frees :: "call list \<Rightarrow> addr list" where
  "frees [] = []"
| "frees (c # cs) = (case c of Lib_free_string p \<Rightarrow> p # frees cs | _ \<Rightarrow> frees cs)"

definition touches :: "call \<Rightarrow> addr set" where
  "touches c = (case c of JNI_NewStringUTF p \<Rightarrow> {p} | Lib_free_string p \<Rightarrow> {p} | _ \<Rightarrow> {})"

primrec no_use_after_free :: "call list \<Rightarrow> bool" where
  "no_use_after_free [] = True"
| "no_use_after_free (c # cs) =
     ((case c of Lib_free_string p \<Rightarrow> (\<forall>d \<in> set cs. p \<notin> touches d) | _ \<Rightarrow> True)
      \<and> no_use_after_free cs)"

text \<open>
  The records \<open>getNetworkInfos\<close> copies out: the first \<open>count\<close> of the buffer. The
  collector has honoured its contract when its return value does not exceed the length of
  the buffer and the strings of these records are properly owned.
\<close>

definition copied :: "jint \<Rightarrow> KeyValuePair list \<Rightarrow> jint \<Rightarrow> KeyValuePair list" where
  "copied maxLen ws count = take (nat (sint count)) (written (replicate (cap maxLen) null_pair) ws)"

definition honoured :: "jint \<Rightarrow> KeyValuePair list \<Rightarrow> jint \<Rightarrow> (addr \<rightharpoonup> string) \<Rightarrow> bool" where
  "honoured maxLen ws count h =
     (sint count \<le> int (cap maxLen) \<and> records_ok h (copied maxLen ws count))"

text \<open>What a bridge function hands back to Java, without the world.\<close>

definition result :: "error + ('a \<times> 'l world) \<Rightarrow> error + 'a" where
  "result r = (case r of Inl e \<Rightarrow> Inl e | Inr (x, w) \<Rightarrow> Inr x)"

text \<open>
  The pointer and the names \<open>retainNetworkInstance\<close> passes on for a Java array: a null
  pointer for a null array and for an array of length 0.
\<close>

definition marshalled :: "jstring list option \<Rightarrow> c_str list option" where
  "marshalled names = (case names of None \<Rightarrow> None | Some a \<Rightarrow> if a = [] then None else Some a)"

definition names_of :: "jstring list option \<Rightarrow> jstring list" where
  "names_of names = (case names of None \<Rightarrow> [] | Some a \<Rightarrow> a)"

text \<open>
  A library for the examples. It answers \<open>collect_network_infos\<close> with the records \<open>ws\<close>
  and the return value \<open>count\<close>, answers \<open>get_error_msg\<close> with \<open>err\<close>, and allocates the
  strings \<open>strs\<close> on both. Its other functions report \<open>-1\<close> for a null text and 0
  otherwise, \<open>retain_network_instance\<close> the count it was given. And a world to start from,
  with room for a buffer of \<open>1048576\<close> records.
\<close>

definition answering ::
  "KeyValuePair list \<Rightarrow> jint \<Rightarrow> (addr \<rightharpoonup> string) \<Rightarrow> owned_ptr \<Rightarrow> unit easytier" where
  "answering ws count strs err =
     \<lparr>set_tun_fd = (\<lambda>name fd l. (if name = None then - 1 else 0, l)),
      parse_config = (\<lambda>cfg l. (if cfg = None then - 1 else 0, l)),
      run_network_instance = (\<lambda>cfg l. (if cfg = None then - 1 else 0, l)),
      retain_network_instance = (\<lambda>names n l. (word_of_nat n, l)),
      collect_network_infos = (\<lambda>n l h. ((ws, count), l, h ++ strs)),
      get_error_msg = (\<lambda>l h. (err, l, h ++ strs))\<rparr>"

definition w0 :: "unit world" where
  "w0 = \<lparr>lib = (), heap = Map.empty, trace = [], vector_room = 1048576\<rparr>"

text \<open>Two records with three strings among them, for the examples.\<close>

definition two_records :: "KeyValuePair list" where
  "two_records = [\<lparr>key = Some 1, value' = Some 2\<rparr>, \<lparr>key = Some 3, value' = None\<rparr>]"

definition three_strings :: "addr \<rightharpoonup> string" where
  "three_strings = [1 \<mapsto> ''name'', 2 \<mapsto> ''n1'', 3 \<mapsto> ''peers'']"

declare copy_loop.simps [simp del] retain_marshal_loop.simps [simp del] retain_release_loop.simps [simp del]

section \<open>The copy loop\<close>

lemma restrict_upd_None: "h |` (- {p}) = h(p := None)"
  by (rule ext) (simp add: restrict_map_def)

lemma restrict_upd_None2: "h |` (- {p, q}) = h(p := None, q := None)"
  by (rule ext) (simp add: restrict_map_def)

lemma restrict_UNIV: "h |` UNIV = h"
  by (rule ext) simp

lemma copy_loop_step:
  assumes "i < count" "i < length buf" "i < length arr" "record_ok (heap w) (buf ! i)"
  shows "copy_loop buf i count arr w =
         copy_loop buf (Suc i) count (arr[i := Some (mk_info (heap w) (buf ! i))])
           (released (ptrs (buf ! i)) (record_calls (buf ! i)) w)"
  using assms
  apply (subst copy_loop.simps)
  apply (cases "key (buf ! i)"; cases "value' (buf ! i)")
  apply (auto simp: vec_get_def SetObjectArrayElement_def NewStringUTF_def free_string_def
      emit_def record_ok_def ptrs_def mk_info_def released_def record_calls_def
      restrict_upd_None restrict_upd_None2 restrict_UNIV split: option.splits)
  done

lemma copy_loop_fail:
  assumes "i < count" "\<not> (i < length buf \<and> i < length arr \<and> record_ok (heap w) (buf ! i))"
  shows "\<exists>e. copy_loop buf i count arr w = Inl e"
  using assms
  apply (subst copy_loop.simps)
  apply (cases "key (buf ! i)"; cases "value' (buf ! i)")
  apply (auto simp: vec_get_def SetObjectArrayElement_def NewStringUTF_def free_string_def
      emit_def record_ok_def ptrs_def split: option.splits)
  done

lemma copy_loop_done: "\<not> i < count \<Longrightarrow> copy_loop buf i count arr w = Inr (arr, w)"
  by (subst copy_loop.simps) simp

lemma slice_step: "i < n \<Longrightarrow> n \<le> length xs \<Longrightarrow> slice i n xs = xs ! i # slice (Suc i) n xs"
  by (simp add: slice_def Cons_nth_drop_Suc [symmetric])

lemma slice_empty: "\<not> i < n \<Longrightarrow> slice i n xs = []"
  by (simp add: slice_def)

lemma records_ok_Cons:
  "records_ok h (kv # recs) = (record_ok h kv \<and> records_ok (h |` (- set (ptrs kv))) recs)"
  by (auto simp: records_ok_def record_ok_def owned_def)

lemma mk_info_restrict:
  "set (ptrs kv) \<subseteq> A \<Longrightarrow> mk_info (h |` A) kv = mk_info h kv"
  by (cases "key kv"; cases "value' kv") (auto simp: mk_info_def ptrs_def)

lemma map_mk_info_restrict:
  "set (owned recs) \<subseteq> A \<Longrightarrow> map (mk_info (h |` A)) recs = map (mk_info h) recs"
  by (induction recs) (auto simp: owned_def mk_info_restrict)

lemma released_released:
  "released qs ds (released ps cs w) = released (ps @ qs) (cs @ ds) w"
  by (simp add: released_def restrict_map_def fun_eq_iff)

lemma released_Nil: "released [] [] w = w"
  by (simp add: released_def restrict_UNIV)

lemma heap_released: "heap (released ps cs w) = heap w |` (- set ps)"
  by (simp add: released_def)

lemma copy_loop_total:
  assumes "i \<le> count" "count \<le> length buf" "length arr = count"
    "records_ok (heap w) (slice i count buf)"
  shows "copy_loop buf i count arr w =
         Inr (take i arr @ map (\<lambda>kv. Some (mk_info (heap w) kv)) (slice i count buf),
              released (owned (slice i count buf))
                (concat (map record_calls (slice i count buf))) w)"
  using assms
proof (induction "count - i" arbitrary: i arr w)
  case 0
  then show ?case
    by (simp add: copy_loop_done slice_empty owned_def released_Nil)
next
  case (Suc k)
  then have lt: "i < count" by simp
  let ?kv = "buf ! i"
  let ?rest = "slice (Suc i) count buf"
  have sl: "slice i count buf = ?kv # ?rest"
    using lt Suc.prems by (simp add: slice_step)
  have ok: "record_ok (heap w) ?kv" "records_ok (heap w |` (- set (ptrs ?kv))) ?rest"
    using Suc.prems(4) by (simp_all add: sl records_ok_Cons)
  let ?w1 = "released (ptrs ?kv) (record_calls ?kv) w"
  let ?arr1 = "arr[i := Some (mk_info (heap w) ?kv)]"
  have step: "copy_loop buf i count arr w = copy_loop buf (Suc i) count ?arr1 ?w1"
    using lt Suc.prems ok by (intro copy_loop_step) simp_all
  have ih: "copy_loop buf (Suc i) count ?arr1 ?w1 =
      Inr (take (Suc i) ?arr1 @ map (\<lambda>kv. Some (mk_info (heap ?w1) kv)) ?rest,
           released (owned ?rest) (concat (map record_calls ?rest)) ?w1)"
    using Suc.hyps(2) lt Suc.prems ok
    by (intro Suc.hyps(1)) (simp_all add: heap_released)
  have sub: "set (owned ?rest) \<subseteq> - set (ptrs ?kv)"
    using ok(2) by (auto simp: records_ok_def)
  have infos: "map (\<lambda>kv. Some (mk_info (heap ?w1) kv)) ?rest
             = map (\<lambda>kv. Some (mk_info (heap w) kv)) ?rest"
    using map_mk_info_restrict [OF sub, of "heap w"]
    by (simp add: heap_released)
  have arr: "take (Suc i) ?arr1 = take i arr @ [Some (mk_info (heap w) ?kv)]"
    using lt Suc.prems by (simp add: take_Suc_conv_app_nth)
  show ?case
    by (simp add: step ih infos arr sl released_released owned_def)
qed

lemma copy_loop_sound:
  assumes "copy_loop buf i count arr w = Inr r" "i \<le> count" "length arr = count"
  shows "(i < count \<longrightarrow> count \<le> length buf) \<and> records_ok (heap w) (slice i count buf)"
  using assms
proof (induction "count - i" arbitrary: i arr w)
  case 0
  then show ?case by (simp add: slice_empty records_ok_def owned_def)
next
  case (Suc k)
  then have lt: "i < count" by simp
  let ?kv = "buf ! i"
  have here: "i < length buf" "record_ok (heap w) ?kv"
    using copy_loop_fail [OF lt, of buf arr w] Suc.prems(1) by auto
  let ?w1 = "released (ptrs ?kv) (record_calls ?kv) w"
  let ?arr1 = "arr[i := Some (mk_info (heap w) ?kv)]"
  have step: "copy_loop buf (Suc i) count ?arr1 ?w1 = Inr r"
    using copy_loop_step [OF lt here(1) _ here(2), of arr] lt Suc.prems by simp
  have ih: "(Suc i < count \<longrightarrow> count \<le> length buf) \<and>
            records_ok (heap ?w1) (slice (Suc i) count buf)"
    using Suc.hyps(2) lt Suc.prems by (intro Suc.hyps(1) [OF _ step]) simp_all
  have le: "count \<le> length buf" using ih here(1) lt by (cases "Suc i < count") simp_all
  show ?case
    using ih here(2) le lt by (simp add: slice_step records_ok_Cons heap_released)
qed

lemma frees_append: "frees (xs @ ys) = frees xs @ frees ys"
  by (induction xs) (auto split: call.splits)

lemma frees_map_free: "frees (map Lib_free_string ps) = ps"
  by (induction ps) auto

lemma frees_map_new: "frees (map JNI_NewStringUTF ps) = []"
  by (induction ps) auto

lemma frees_record_calls: "frees (record_calls kv) = ptrs kv"
  by (simp add: record_calls_def frees_append frees_map_free frees_map_new)

lemma frees_records: "frees (concat (map record_calls recs)) = owned recs"
  by (induction recs) (simp_all add: owned_def frees_append frees_record_calls)

lemma nuaf_append:
  "no_use_after_free (xs @ ys) =
     (no_use_after_free xs \<and> no_use_after_free ys \<and>
      (\<forall>p \<in> set (frees xs). \<forall>d \<in> set ys. p \<notin> touches d))"
  by (induction xs) (auto split: call.splits)

lemma touches_record_calls: "d \<in> set (record_calls kv) \<Longrightarrow> touches d \<subseteq> set (ptrs kv)"
  by (auto simp: record_calls_def touches_def)

lemma touches_records:
  "d \<in> set (concat (map record_calls recs)) \<Longrightarrow> touches d \<subseteq> set (owned recs)"
  using touches_record_calls by (fastforce simp: owned_def)

lemma nuaf_map_new: "no_use_after_free (map JNI_NewStringUTF ps)"
  by (induction ps) auto

lemma nuaf_map_free: "distinct ps \<Longrightarrow> no_use_after_free (map Lib_free_string ps)"
  by (induction ps) (auto simp: touches_def)

lemma nuaf_record_calls: "distinct (ptrs kv) \<Longrightarrow> no_use_after_free (record_calls kv)"
  by (simp add: record_calls_def nuaf_append nuaf_map_new nuaf_map_free frees_map_new)

lemma nuaf_records:
  "distinct (owned recs) \<Longrightarrow> no_use_after_free (concat (map record_calls recs))"
proof (induction recs)
  case Nil
  then show ?case by simp
next
  case (Cons kv recs)
  have "\<And>p d. p \<in> set (ptrs kv) \<Longrightarrow> d \<in> set (concat (map record_calls recs)) \<Longrightarrow> p \<notin> touches d"
    using Cons.prems touches_records [of _ recs] by (auto simp: owned_def)
  with Cons show ?case
    by (simp add: nuaf_append nuaf_record_calls frees_record_calls owned_def)
qed

lemma length_written: "length (written buf ws) = length buf"
  by (simp add: written_def)

lemma slice_0: "slice 0 n xs = take n xs"
  by (simp add: slice_def)

lemma getNetworkInfos_BadAlloc:
  "vector_room w < cap maxLen \<Longrightarrow> getNetworkInfos L maxLen w = Inl BadAlloc"
  by (simp add: getNetworkInfos_def new_buffer_def)

lemma getNetworkInfos_Inr_room:
  "getNetworkInfos L maxLen w = Inr r \<Longrightarrow> cap maxLen \<le> vector_room w"
  using getNetworkInfos_BadAlloc [of w maxLen L] by (cases "vector_room w < cap maxLen") simp_all

lemma getNetworkInfos_eq:
  assumes c: "collect_network_infos L (cap maxLen) (lib w) (heap w) = ((ws, count), l', h')"
    and h: "honoured maxLen ws count h'"
    and a: "cap maxLen \<le> vector_room w"
  shows "getNetworkInfos L maxLen w =
         Inr (map (\<lambda>kv. Some (mk_info h' kv)) (copied maxLen ws count),
              released (owned (copied maxLen ws count))
                (Lib_collect_network_infos (cap maxLen)
                   # concat (map record_calls (copied maxLen ws count)))
                (w\<lparr>lib := l', heap := h'\<rparr>))"
proof (cases "sint count \<le> 0")
  case True
  then show ?thesis
    using c a
    by (simp add: getNetworkInfos_def new_buffer_def Let_def copied_def released_def emit_def
        owned_def restrict_UNIV)
next
  case False
  let ?n = "nat (sint count)"
  let ?buf = "written (replicate (cap maxLen) null_pair) ws"
  let ?w1 = "emit (Lib_collect_network_infos (cap maxLen)) (w\<lparr>lib := l', heap := h'\<rparr>)"
  have le: "?n \<le> length ?buf" using h False by (auto simp: honoured_def length_written)
  have ok: "records_ok (heap ?w1) (slice 0 ?n ?buf)"
    using h by (simp add: honoured_def copied_def slice_0 emit_def)
  have "copy_loop ?buf 0 ?n (replicate ?n None) ?w1 =
        Inr (take 0 (replicate ?n None) @ map (\<lambda>kv. Some (mk_info (heap ?w1) kv)) (slice 0 ?n ?buf),
             released (owned (slice 0 ?n ?buf)) (concat (map record_calls (slice 0 ?n ?buf))) ?w1)"
    using le ok by (intro copy_loop_total) simp_all
  then show ?thesis
    using c a False
    by (simp add: getNetworkInfos_def new_buffer_def Let_def copied_def slice_0 emit_def
        released_def)
qed

lemma getNetworkInfos_Inr_honoured:
  assumes c: "collect_network_infos L (cap maxLen) (lib w) (heap w) = ((ws, count), l', h')"
    and r: "getNetworkInfos L maxLen w = Inr r"
  shows "honoured maxLen ws count h'"
proof (cases "sint count \<le> 0")
  case True
  then show ?thesis
    by (simp add: honoured_def copied_def records_ok_def owned_def)
next
  case False
  let ?n = "nat (sint count)"
  let ?buf = "written (replicate (cap maxLen) null_pair) ws"
  let ?w1 = "emit (Lib_collect_network_infos (cap maxLen)) (w\<lparr>lib := l', heap := h'\<rparr>)"
  have "copy_loop ?buf 0 ?n (replicate ?n None) ?w1 = Inr r"
    using c r False getNetworkInfos_Inr_room [OF r]
    by (simp add: getNetworkInfos_def new_buffer_def Let_def)
  from copy_loop_sound [OF this] False
  have "?n \<le> length ?buf" "records_ok (heap ?w1) (slice 0 ?n ?buf)" by simp_all
  then show ?thesis
    using False by (simp add: honoured_def copied_def slice_0 emit_def length_written)
qed

section \<open>The loops of retainNetworkInstance\<close>

lemma non_null_append: "non_null (xs @ ys) = non_null xs @ non_null ys"
  by (induction xs) (auto split: option.splits)

lemma retain_marshal_loop_eq:
  assumes "i \<le> length names" "length jnames = length names" "length c_names = length names"
  shows "retain_marshal_loop names i (length names) jnames c_names w =
         Inr ((take i jnames @ drop i names, take i c_names @ drop i names),
              w\<lparr>trace := trace w @ map JNI_GetStringUTFChars (non_null (drop i names))\<rparr>)"
  using assms
proof (induction "length names - i" arbitrary: i jnames c_names w)
  case 0
  then show ?case by (subst retain_marshal_loop.simps) simp
next
  case (Suc k)
  then have lt: "i < length names" by simp
  have dr: "drop i names = names ! i # drop (Suc i) names"
    using lt by (simp add: Cons_nth_drop_Suc)
  show ?case
  proof (cases "names ! i")
    case None
    have "retain_marshal_loop names i (length names) jnames c_names w =
          retain_marshal_loop names (Suc i) (length names) (jnames[i := None]) (c_names[i := None]) w"
      using lt Suc.prems None
      by (subst retain_marshal_loop.simps)
         (simp add: GetObjectArrayElement_def vec_set_def)
    also have "\<dots> = Inr ((take (Suc i) (jnames[i := None]) @ drop (Suc i) names,
                          take (Suc i) (c_names[i := None]) @ drop (Suc i) names),
              w\<lparr>trace := trace w @ map JNI_GetStringUTFChars (non_null (drop (Suc i) names))\<rparr>)"
      using Suc.hyps(2) lt Suc.prems by (intro Suc.hyps(1)) simp_all
    finally show ?thesis
      using lt Suc.prems None by (simp add: dr take_Suc_conv_app_nth)
  next
    case (Some t)
    let ?w1 = "emit (JNI_GetStringUTFChars t) w"
    have "retain_marshal_loop names i (length names) jnames c_names w =
          retain_marshal_loop names (Suc i) (length names) (jnames[i := Some t]) (c_names[i := Some t]) ?w1"
      using lt Suc.prems Some
      by (subst retain_marshal_loop.simps)
         (simp add: GetObjectArrayElement_def vec_set_def GetStringUTFChars_def)
    also have "\<dots> = Inr ((take (Suc i) (jnames[i := Some t]) @ drop (Suc i) names,
                          take (Suc i) (c_names[i := Some t]) @ drop (Suc i) names),
              ?w1\<lparr>trace := trace ?w1 @ map JNI_GetStringUTFChars (non_null (drop (Suc i) names))\<rparr>)"
      using Suc.hyps(2) lt Suc.prems by (intro Suc.hyps(1)) simp_all
    finally show ?thesis
      using lt Suc.prems Some by (simp add: dr take_Suc_conv_app_nth emit_def)
  qed
qed

lemma retain_release_loop_eq:
  assumes "i \<le> length names"
  shows "retain_release_loop i (length names) names names w =
         Inr ((), w\<lparr>trace := trace w @ map JNI_ReleaseStringUTFChars (non_null (drop i names))\<rparr>)"
  using assms
proof (induction "length names - i" arbitrary: i w)
  case 0
  then show ?case by (subst retain_release_loop.simps) simp
next
  case (Suc k)
  then have lt: "i < length names" by simp
  have dr: "drop i names = names ! i # drop (Suc i) names"
    using lt by (simp add: Cons_nth_drop_Suc)
  let ?w1 = "case names ! i of Some s \<Rightarrow> ReleaseStringUTFChars s w | None \<Rightarrow> w"
  have "retain_release_loop i (length names) names names w =
        retain_release_loop (Suc i) (length names) names names ?w1"
    using lt by (subst retain_release_loop.simps) (simp add: vec_get_def split: option.splits)
  also have "\<dots> = Inr ((), ?w1\<lparr>trace := trace ?w1 @
                 map JNI_ReleaseStringUTFChars (non_null (drop (Suc i) names))\<rparr>)"
    using Suc.hyps(2) lt by (intro Suc.hyps(1)) simp_all
  finally show ?case
    by (simp add: dr ReleaseStringUTFChars_def emit_def split: option.splits)
qed

lemma retainNetworkInstance_eq:
  "retainNetworkInstance L names w =
   Inr (fst (retain_network_instance L (marshalled names) (length (names_of names)) (lib w)),
        w\<lparr>lib := snd (retain_network_instance L (marshalled names) (length (names_of names)) (lib w)),
          trace := trace w @ map JNI_GetStringUTFChars (non_null (names_of names))
                   @ [Lib_retain_network_instance (marshalled names) (length (names_of names))]
                   @ map JNI_ReleaseStringUTFChars (non_null (names_of names))\<rparr>)"
proof (cases names)
  case None
  show ?thesis
    unfolding None retainNetworkInstance_def
    by (simp add: retain_marshal_loop.simps retain_release_loop.simps marshalled_def names_of_def
        emit_def split: prod.splits)
next
  case (Some a)
  have m: "retain_marshal_loop a 0 (length a) (replicate (length a) None) (replicate (length a) None) w
      = Inr ((a, a), w\<lparr>trace := trace w @ map JNI_GetStringUTFChars (non_null a)\<rparr>)"
    using retain_marshal_loop_eq [of 0 a "replicate (length a) None" "replicate (length a) None" w]
    by simp
  show ?thesis
    unfolding Some retainNetworkInstance_def
    by (simp add: m retain_release_loop_eq marshalled_def names_of_def emit_def Let_def
        split: prod.splits)
qed

section \<open>The bridge functions in closed form\<close>

lemma parseConfig_eq:
  "parseConfig L cfg w =
   Inr (fst (parse_config L cfg (lib w)),
        w\<lparr>lib := snd (parse_config L cfg (lib w)),
          trace := trace w @ map JNI_GetStringUTFChars (non_null [cfg])
                   @ [Lib_parse_config cfg] @ map JNI_ReleaseStringUTFChars (non_null [cfg])\<rparr>)"
  by (cases cfg)
     (simp_all add: parseConfig_def GetStringUTFChars_def ReleaseStringUTFChars_def emit_def
        split: prod.splits)

lemma runNetworkInstance_eq:
  "runNetworkInstance L cfg w =
   Inr (fst (run_network_instance L cfg (lib w)),
        w\<lparr>lib := snd (run_network_instance L cfg (lib w)),
          trace := trace w @ map JNI_GetStringUTFChars (non_null [cfg])
                   @ [Lib_run_network_instance cfg]
                   @ map JNI_ReleaseStringUTFChars (non_null [cfg])\<rparr>)"
  by (cases cfg)
     (simp_all add: runNetworkInstance_def GetStringUTFChars_def ReleaseStringUTFChars_def emit_def
        split: prod.splits)

lemma setTunFd_eq:
  "setTunFd L instName fd w =
   Inr (fst (set_tun_fd L instName fd (lib w)),
        w\<lparr>lib := snd (set_tun_fd L instName fd (lib w)),
          trace := trace w @ map JNI_GetStringUTFChars (non_null [instName])
                   @ [Lib_set_tun_fd instName fd]
                   @ map JNI_ReleaseStringUTFChars (non_null [instName])\<rparr>)"
  by (cases instName)
     (simp_all add: setTunFd_def GetStringUTFChars_def ReleaseStringUTFChars_def emit_def
        split: prod.splits)

lemma honoured_nonpositive: "sint count \<le> 0 \<Longrightarrow> honoured maxLen ws count h"
  by (simp add: honoured_def copied_def records_ok_def owned_def)

lemma length_copied:
  "sint count \<le> int (cap maxLen) \<Longrightarrow> length (copied maxLen ws count) = nat (sint count)"
  by (auto simp: copied_def length_written)

lemma copied_nth:
  "i < nat (sint count) \<Longrightarrow> sint count \<le> int (cap maxLen) \<Longrightarrow>
   copied maxLen ws count ! i = written (replicate (cap maxLen) null_pair) ws ! i"
  by (simp add: copied_def)

lemma trace_released: "trace (released ps cs w) = trace w @ cs"
  by (simp add: released_def)

lemma collect_answering:
  "collect_network_infos (answering ws count strs err) n (lib w0) (heap w0) = ((ws, count), (), strs)"
  by (simp add: answering_def w0_def)

lemma get_error_msg_answering:
  "get_error_msg (answering ws count strs err) (lib w0) (heap w0) = (err, (), strs)"
  by (simp add: answering_def w0_def)

lemma room_w0: "cap 2 \<le> vector_room w0" "cap 0 \<le> vector_room w0" "cap 4 \<le> vector_room w0"
  by (simp_all add: cap_def w0_def)

lemma copied_two_records: "copied 2 two_records 2 = two_records"
  by (simp add: copied_def cap_def written_def two_records_def)

lemma honoured_two_records: "honoured 2 two_records 2 three_strings"
  by (simp add: honoured_def copied_two_records cap_def)
     (simp add: records_ok_def owned_def ptrs_def two_records_def three_strings_def)

section \<open>The claims\<close>

text \<open>
  Claim C1, as amended. With capacity argument 0 the bridge does not return early: it
  hands the collector a buffer of 256 records. Every sequence it returns is the empty one
  when the collector's return value is zero or negative, and it does return then if the
  buffer can be built; no sequence it returns is the empty one when the return value is
  positive.
\<close>

theorem getNetworkInfos_capacity_zero:
  assumes "collect_network_infos L 256 (lib w) (heap w) = ((ws, count), l', h')"
  shows "cap 0 = 256 \<and>
         (sint count \<le> 0 \<longrightarrow>
            (\<forall>arr w'. getNetworkInfos L 0 w = Inr (arr, w') \<longrightarrow> arr = []) \<and>
            (256 \<le> vector_room w \<longrightarrow>
               getNetworkInfos L 0 w =
                 Inr ([], emit (Lib_collect_network_infos 256) (w\<lparr>lib := l', heap := h'\<rparr>)))) \<and>
         (0 < sint count \<longrightarrow> result (getNetworkInfos L 0 w) \<noteq> Inr [])"
proof -
  have c0: "cap 0 = 256" by (simp add: cap_def)
  have c: "collect_network_infos L (cap 0) (lib w) (heap w) = ((ws, count), l', h')"
    using assms by (simp add: c0)
  have a: "getNetworkInfos L 0 w =
             Inr ([], emit (Lib_collect_network_infos 256) (w\<lparr>lib := l', heap := h'\<rparr>))"
    if "sint count \<le> 0" "256 \<le> vector_room w"
    using assms that by (simp add: getNetworkInfos_def new_buffer_def c0 Let_def)
  have a': "arr = []" if "sint count \<le> 0" and r: "getNetworkInfos L 0 w = Inr (arr, w')"
    for arr w'
    using a [OF that(1)] getNetworkInfos_Inr_room [OF r] r by (simp add: c0)
  have b: "result (getNetworkInfos L 0 w) \<noteq> Inr []" if pos: "0 < sint count"
  proof (cases "getNetworkInfos L 0 w")
    case (Inl e)
    then show ?thesis by (simp add: result_def)
  next
    case (Inr r)
    from getNetworkInfos_Inr_honoured [OF c Inr] have h: "honoured 0 ws count h'" .
    then have "length (copied 0 ws count) = nat (sint count)"
      by (simp add: honoured_def length_copied)
    with pos have "copied 0 ws count \<noteq> []" by auto
    then show ?thesis
      by (simp add: getNetworkInfos_eq [OF c h getNetworkInfos_Inr_room [OF Inr]] result_def)
  qed
  from c0 a a' b show ?thesis by blast
qed

theorem getNetworkInfos_capacity_zero_witness:
  "getNetworkInfos (answering [] (- 1) Map.empty None) 0 w0 =
     Inr ([], emit (Lib_collect_network_infos 256) w0) \<and>
   result (getNetworkInfos
     (answering [\<lparr>key = Some 1, value' = Some 2\<rparr>] 1 [1 \<mapsto> ''status'', 2 \<mapsto> ''running''] None)
     0 w0) \<noteq> Inr []"
  using getNetworkInfos_capacity_zero [of "answering [] (- 1) Map.empty None" w0 "[]" "- 1" "()"
      Map.empty]
    getNetworkInfos_capacity_zero [of
      "answering [\<lparr>key = Some 1, value' = Some 2\<rparr>] 1 [1 \<mapsto> ''status'', 2 \<mapsto> ''running''] None"
      w0 "[\<lparr>key = Some 1, value' = Some 2\<rparr>]" 1 "()" "[1 \<mapsto> ''status'', 2 \<mapsto> ''running'']"]
  by (simp add: answering_def w0_def)

text \<open>
  Claim C1 as it is written fails: asked with capacity 0, a collector that reports one
  record gets it through.
\<close>

theorem getNetworkInfos_capacity_zero_counterexample:
  "result (getNetworkInfos
     (answering [\<lparr>key = Some 1, value' = Some 2\<rparr>] 1 [1 \<mapsto> ''status'', 2 \<mapsto> ''running''] None)
     0 w0) = Inr [Some \<lparr>info_key = Some ''status'', info_value = Some ''running''\<rparr>]"
  by (simp add: getNetworkInfos_def new_buffer_def cap_def answering_def w0_def written_def
      null_pair_def copy_loop.simps vec_get_def SetObjectArrayElement_def NewStringUTF_def
      free_string_def emit_def result_def)

text \<open>
  Claim C2, as amended. Let the library keep to its contract: the collector's return value
  does not exceed the buffer length, the non-null pointers of the records it reports are
  distinct live strings, and the pointer left by \<open>get_error_msg\<close> is null or a live
  string. Then \<open>getNetworkInfos\<close> either cannot build its buffer, and stops before the
  collector is called and any string is received, or it returns, and the addresses it
  has passed to \<open>free_string\<close> are exactly the non-null key and value pointers of the
  records copied out, in their order, each once; no call after a release touches the
  released address; the released strings are gone from the store and nothing else in it
  has changed. \<open>getLastError\<close> returns likewise, with one release of the pointer it was
  left if that is non-null and none otherwise.
\<close>

theorem owned_strings_released_once:
  "(collect_network_infos L (cap maxLen) (lib w) (heap w) = ((ws, count), l', h') \<and>
    honoured maxLen ws count h' \<longrightarrow>
      (if vector_room w < cap maxLen then getNetworkInfos L maxLen w = Inl BadAlloc
       else (\<exists>arr w' evs. getNetworkInfos L maxLen w = Inr (arr, w') \<and>
               trace w' = trace w @ evs \<and>
               frees evs = owned (copied maxLen ws count) \<and> distinct (frees evs) \<and>
               no_use_after_free evs \<and>
               (\<forall>p. heap w' p = (if p \<in> set (frees evs) then None else h' p))))) \<and>
   (get_error_msg L (lib w) (heap w) = (err, l'', h'') \<and> set (non_null [err]) \<subseteq> dom h'' \<longrightarrow>
      (\<exists>s w' evs. getLastError L w = Inr (s, w') \<and>
          trace w' = trace w @ evs \<and>
          frees evs = non_null [err] \<and> distinct (frees evs) \<and> no_use_after_free evs \<and>
          (\<forall>p. heap w' p = (if p \<in> set (frees evs) then None else h'' p))))"
proof (intro conjI impI)
  assume "collect_network_infos L (cap maxLen) (lib w) (heap w) = ((ws, count), l', h') \<and>
    honoured maxLen ws count h'"
  then have c: "collect_network_infos L (cap maxLen) (lib w) (heap w) = ((ws, count), l', h')"
    and h: "honoured maxLen ws count h'" by simp_all
  let ?recs = "copied maxLen ws count"
  let ?evs = "Lib_collect_network_infos (cap maxLen) # concat (map record_calls ?recs)"
  let ?w' = "released (owned ?recs) ?evs (w\<lparr>lib := l', heap := h'\<rparr>)"
  show "if vector_room w < cap maxLen then getNetworkInfos L maxLen w = Inl BadAlloc
       else (\<exists>arr w' evs. getNetworkInfos L maxLen w = Inr (arr, w') \<and>
               trace w' = trace w @ evs \<and>
               frees evs = owned ?recs \<and> distinct (frees evs) \<and>
               no_use_after_free evs \<and>
               (\<forall>p. heap w' p = (if p \<in> set (frees evs) then None else h' p)))"
  proof (cases "vector_room w < cap maxLen")
    case True
    then show ?thesis by (simp add: getNetworkInfos_BadAlloc)
  next
    case False
    then have a: "cap maxLen \<le> vector_room w" by simp
    have ok: "distinct (owned ?recs)"
      using h by (simp add: honoured_def records_ok_def)
    have f: "frees ?evs = owned ?recs" by (simp add: frees_records)
    have "getNetworkInfos L maxLen w = Inr (map (\<lambda>kv. Some (mk_info h' kv)) ?recs, ?w')"
      by (rule getNetworkInfos_eq [OF c h a])
    moreover have "trace ?w' = trace w @ ?evs" by (simp add: trace_released)
    moreover have "no_use_after_free ?evs" using ok by (simp add: nuaf_records)
    moreover have "\<forall>p. heap ?w' p = (if p \<in> set (frees ?evs) then None else h' p)"
      by (simp add: heap_released frees_records restrict_map_def)
    ultimately have "\<exists>arr w' evs. getNetworkInfos L maxLen w = Inr (arr, w') \<and>
               trace w' = trace w @ evs \<and>
               frees evs = owned ?recs \<and> distinct (frees evs) \<and>
               no_use_after_free evs \<and>
               (\<forall>p. heap w' p = (if p \<in> set (frees evs) then None else h' p))"
      using f ok
      by (intro exI [of _ "map (\<lambda>kv. Some (mk_info h' kv)) ?recs"] exI [of _ ?w']
          exI [of _ ?evs]) simp
    with False show ?thesis by simp
  qed
next
  assume "get_error_msg L (lib w) (heap w) = (err, l'', h'') \<and> set (non_null [err]) \<subseteq> dom h''"
  then have g: "get_error_msg L (lib w) (heap w) = (err, l'', h'')"
    and d: "set (non_null [err]) \<subseteq> dom h''" by simp_all
  show "\<exists>s w' evs. getLastError L w = Inr (s, w') \<and>
          trace w' = trace w @ evs \<and>
          frees evs = non_null [err] \<and> distinct (frees evs) \<and> no_use_after_free evs \<and>
          (\<forall>p. heap w' p = (if p \<in> set (frees evs) then None else h'' p))"
  proof (cases err)
    case None
    with g show ?thesis
      by (intro exI [of _ None] exI [of _ "emit Lib_get_error_msg (w\<lparr>lib := l'', heap := h''\<rparr>)"]
          exI [of _ "[Lib_get_error_msg]"])
         (simp add: getLastError_def emit_def)
  next
    case (Some p)
    with d obtain msg where m: "h'' p = Some msg" by auto
    let ?evs = "[Lib_get_error_msg, JNI_NewStringUTF p, Lib_free_string p]"
    let ?w' = "w\<lparr>lib := l'', heap := h''(p := None), trace := trace w @ ?evs\<rparr>"
    have "getLastError L w = Inr (Some msg, ?w')"
      using g Some m by (simp add: getLastError_def emit_def NewStringUTF_def free_string_def)
    then show ?thesis
      by (intro exI [of _ "Some msg"] exI [of _ ?w'] exI [of _ ?evs])
         (simp add: Some touches_def)
  qed
qed

theorem owned_strings_released_once_witness:
  "honoured 2 two_records 2 three_strings \<and>
   (\<exists>arr w' evs. getNetworkInfos (answering two_records 2 three_strings None) 2 w0 = Inr (arr, w') \<and>
      trace w' = trace w0 @ evs \<and> frees evs = [1, 2, 3] \<and> no_use_after_free evs) \<and>
   (\<exists>s w' evs. getLastError (answering [] 0 [7 \<mapsto> ''no such instance''] (Some 7)) w0 = Inr (s, w') \<and>
      trace w' = trace w0 @ evs \<and> frees evs = [7] \<and> no_use_after_free evs)"
proof -
  let ?L = "answering two_records 2 three_strings None"
  let ?M = "answering [] 0 [7 \<mapsto> ''no such instance''] (Some 7)"
  have o: "owned (copied 2 two_records 2) = [1, 2, 3]"
    by (simp add: copied_two_records) (simp add: two_records_def owned_def ptrs_def)
  have nr: "\<not> vector_room w0 < cap 2" using room_w0(1) by simp
  have d: "set (non_null [Some (7 :: addr)]) \<subseteq> dom [7 \<mapsto> ''no such instance'']" by simp
  from owned_strings_released_once [of ?L 2 w0 two_records 2 "()" three_strings
      None "()" three_strings, THEN conjunct1, THEN mp,
      OF conjI [OF collect_answering honoured_two_records]]
  obtain arr w' evs where a: "getNetworkInfos ?L 2 w0 = Inr (arr, w')"
    "trace w' = trace w0 @ evs" "frees evs = [1, 2, 3]" "no_use_after_free evs"
    unfolding o if_not_P [OF nr] by blast
  from owned_strings_released_once [of ?M 0 w0 "[]" 0 "()" "[7 \<mapsto> ''no such instance'']"
      "Some 7" "()" "[7 \<mapsto> ''no such instance'']", THEN conjunct2, THEN mp,
      OF conjI [OF get_error_msg_answering d]]
  obtain s w'' evs' where b: "getLastError ?M w0 = Inr (s, w'')"
    "trace w'' = trace w0 @ evs'" "frees evs' = [7]" "no_use_after_free evs'"
    by auto
  from a b honoured_two_records show ?thesis by blast
qed

text \<open>
  Claim C2 as it is written fails when pointers are shared. A record whose key and value
  are one string has that address released once and then passed to \<open>free_string\<close>
  again, when it holds no string any more; two records with one key have it read after
  its release.
\<close>

theorem getNetworkInfos_shared_pointer_counterexample:
  "getNetworkInfos (answering [\<lparr>key = Some 1, value' = Some 1\<rparr>] 1 [1 \<mapsto> ''n1''] None) 1 w0
     = Inl InvalidFree \<and>
   getNetworkInfos
     (answering [\<lparr>key = Some 1, value' = None\<rparr>, \<lparr>key = Some 1, value' = None\<rparr>] 2
        [1 \<mapsto> ''n1''] None) 2 w0
     = Inl UseAfterFree"
  by (simp add: getNetworkInfos_def new_buffer_def cap_def answering_def w0_def written_def
      null_pair_def copy_loop.simps vec_get_def SetObjectArrayElement_def NewStringUTF_def
      free_string_def emit_def)

text \<open>
  Claim C3, as amended. When the buffer can be built, the collector's return value does
  not exceed its length and the non-null pointers of the records it reports are distinct
  live strings, \<open>getNetworkInfos\<close> returns an array and no failure: as many records as the
  return value says, none of them null. A return value of zero or below needs only the
  buffer and yields exactly the empty array.
\<close>

theorem getNetworkInfos_never_fails_within_contract:
  assumes "collect_network_infos L (cap maxLen) (lib w) (heap w) = ((ws, count), l', h')"
    and "cap maxLen \<le> vector_room w"
    and "0 < sint count \<longrightarrow> honoured maxLen ws count h'"
  shows "\<exists>arr w'. getNetworkInfos L maxLen w = Inr (arr, w') \<and>
           length arr = nat (sint count) \<and> (\<forall>x \<in> set arr. x \<noteq> None) \<and>
           (sint count \<le> 0 \<longrightarrow> arr = [])"
proof -
  have h: "honoured maxLen ws count h'"
    using assms(3) honoured_nonpositive [of count maxLen ws h'] by (cases "0 < sint count") simp_all
  then have "length (copied maxLen ws count) = nat (sint count)"
    by (simp add: honoured_def length_copied)
  then show ?thesis
    by (auto simp: getNetworkInfos_eq [OF assms(1) h assms(2)])
qed

theorem getNetworkInfos_never_fails_within_contract_witness:
  "cap 2 \<le> vector_room w0 \<and> honoured 2 two_records 2 three_strings \<and>
   (\<exists>arr w'. getNetworkInfos (answering two_records 2 three_strings None) 2 w0 = Inr (arr, w') \<and>
      length arr = 2 \<and> (\<forall>x \<in> set arr. x \<noteq> None)) \<and>
   (\<exists>w'. getNetworkInfos (answering [] (- 3) Map.empty None) 4 w0 = Inr ([], w'))"
proof -
  have n: "0 < sint (- 3 :: jint) \<longrightarrow> honoured 4 [] (- 3) Map.empty" by simp
  have p: "0 < sint (2 :: jint) \<longrightarrow> honoured 2 two_records 2 three_strings"
    using honoured_two_records by simp
  from getNetworkInfos_never_fails_within_contract [OF collect_answering room_w0(1) p]
    getNetworkInfos_never_fails_within_contract [OF collect_answering room_w0(3) n]
    honoured_two_records room_w0(1)
  show ?thesis by auto
qed

text \<open>
  Claim C3 as it is written fails: a return value above the buffer length makes the loop
  read the vector past its end.
\<close>

theorem getNetworkInfos_overlong_count_counterexample:
  "getNetworkInfos (answering [] 2 Map.empty None) 1 w0 = Inl OutOfBounds"
  by (simp add: getNetworkInfos_def new_buffer_def cap_def answering_def w0_def written_def
      null_pair_def copy_loop.simps vec_get_def SetObjectArrayElement_def NewStringUTF_def
      free_string_def emit_def result_def)

text \<open>
  It fails as well, whatever the collector returns, when the capacity argument asks for a
  buffer that cannot be built: here for \<open>2147483647\<close> records where there is room for
  \<open>1048576\<close>, with a collector that would return 0.
\<close>

lemma getNetworkInfos_huge_capacity:
  "getNetworkInfos (answering [] 0 Map.empty None) 2147483647 w0 = Inl BadAlloc"
  by (simp add: getNetworkInfos_BadAlloc cap_def w0_def)

text \<open>
  Claim C4. Each of \<open>parseConfig\<close>, \<open>runNetworkInstance\<close>, \<open>setTunFd\<close> and
  \<open>retainNetworkInstance\<close> returns normally, and what it returns is the status the library
  call gave on the marshalled arguments.
\<close>

theorem status_codes_pass_through:
  "result (parseConfig L cfg w) = Inr (fst (parse_config L cfg (lib w))) \<and>
   result (runNetworkInstance L cfg w) = Inr (fst (run_network_instance L cfg (lib w))) \<and>
   result (setTunFd L instName fd w) = Inr (fst (set_tun_fd L instName fd (lib w))) \<and>
   result (retainNetworkInstance L names w) =
     Inr (fst (retain_network_instance L (marshalled names) (length (names_of names)) (lib w)))"
  by (simp add: parseConfig_eq runNetworkInstance_eq setTunFd_eq retainNetworkInstance_eq
      result_def)

theorem status_codes_pass_through_witness:
  "result (parseConfig (answering [] 0 Map.empty None) (Some ''network_name = n1'') w0) = Inr 0 \<and>
   result (runNetworkInstance (answering [] 0 Map.empty None) None w0) = Inr (- 1) \<and>
   result (setTunFd (answering [] 0 Map.empty None) (Some ''n1'') 42 w0) = Inr 0 \<and>
   result (retainNetworkInstance (answering [] 0 Map.empty None) (Some [Some ''n1'', Some ''n2''])
     w0) = Inr 2"
  using status_codes_pass_through [of "answering [] 0 Map.empty None" "Some ''network_name = n1''"
      w0 "Some ''n1''" 42 "Some [Some ''n1'', Some ''n2'']"]
    status_codes_pass_through [of "answering [] 0 Map.empty None" None w0 None 0 None]
  by (simp add: answering_def w0_def marshalled_def names_of_def)

text \<open>
  Claim C5. For a capacity argument \<open>N > 0\<close> and a collector whose return value is no
  greater than the buffer length \<open>N\<close>, every sequence \<open>getNetworkInfos\<close> returns has at
  most \<open>N\<close> entries; and it does return one when the buffer can be built and the reported
  records hold distinct live strings.
\<close>

theorem getNetworkInfos_length_le_capacity:
  assumes "0 < sint maxLen"
    and "collect_network_infos L (nat (sint maxLen)) (lib w) (heap w) = ((ws, count), l', h')"
    and "sint count \<le> sint maxLen"
  shows "(\<forall>arr w'. getNetworkInfos L maxLen w = Inr (arr, w') \<longrightarrow> length arr \<le> nat (sint maxLen)) \<and>
         (nat (sint maxLen) \<le> vector_room w \<and> records_ok h' (copied maxLen ws count) \<longrightarrow>
            (\<exists>arr w'. getNetworkInfos L maxLen w = Inr (arr, w')))"
proof -
  have cm: "cap maxLen = nat (sint maxLen)" using assms(1) by (simp add: cap_def)
  have c: "collect_network_infos L (cap maxLen) (lib w) (heap w) = ((ws, count), l', h')"
    using assms(2) by (simp add: cm)
  have le: "sint count \<le> int (cap maxLen)" using assms(1,3) by (simp add: cm)
  have a: "length arr \<le> nat (sint maxLen)" if r: "getNetworkInfos L maxLen w = Inr (arr, w')"
    for arr w'
  proof -
    from getNetworkInfos_Inr_honoured [OF c r] have h: "honoured maxLen ws count h'" .
    from r have "arr = map (\<lambda>kv. Some (mk_info h' kv)) (copied maxLen ws count)"
      by (simp add: getNetworkInfos_eq [OF c h getNetworkInfos_Inr_room [OF r]])
    then have "length arr = nat (sint count)" using le by (simp add: length_copied)
    then show ?thesis using assms(3) by simp
  qed
  have b: "\<exists>arr w'. getNetworkInfos L maxLen w = Inr (arr, w')"
    if "nat (sint maxLen) \<le> vector_room w" "records_ok h' (copied maxLen ws count)"
  proof -
    have "honoured maxLen ws count h'" using le that(2) by (simp add: honoured_def)
    from getNetworkInfos_eq [OF c this] that(1) show ?thesis by (simp add: cm)
  qed
  from a b show ?thesis by blast
qed

theorem getNetworkInfos_length_le_capacity_witness:
  "0 < sint (2 :: jint) \<and> sint (2 :: jint) \<le> sint (2 :: jint) \<and>
   nat (sint (2 :: jint)) \<le> vector_room w0 \<and>
   records_ok three_strings (copied 2 two_records 2) \<and>
   (\<exists>arr w'. getNetworkInfos (answering two_records 2 three_strings None) 2 w0 = Inr (arr, w') \<and>
      length arr \<le> 2)"
proof -
  have ok: "records_ok three_strings (copied 2 two_records 2)"
    using honoured_two_records by (simp add: honoured_def)
  have "0 < sint (2 :: jint)" "sint (2 :: jint) \<le> sint (2 :: jint)" by simp_all
  note t = getNetworkInfos_length_le_capacity [OF this(1)
      collect_answering [of two_records 2 three_strings None] this(2)]
  have rm: "nat (sint (2 :: jint)) \<le> vector_room w0" by (simp add: w0_def)
  from t ok rm obtain arr w' where
    r: "getNetworkInfos (answering two_records 2 three_strings None) 2 w0 = Inr (arr, w')"
    by blast
  with t have "length arr \<le> 2" by auto
  with r ok rm show ?thesis by auto
qed

text \<open>
  Claim C6. If \<open>get_error_msg\<close> leaves the out-pointer null, \<open>getLastError\<close> returns
  null; if it leaves the address of a message, \<open>getLastError\<close> returns a string with that
  text.
\<close>

theorem getLastError_optional_message:
  assumes "get_error_msg L (lib w) (heap w) = (err, l', h')"
  shows "(err = None \<longrightarrow> result (getLastError L w) = Inr None) \<and>
         (\<forall>p msg. err = Some p \<and> h' p = Some msg \<longrightarrow>
            result (getLastError L w) = Inr (Some msg))"
  using assms
  by (auto simp: getLastError_def result_def NewStringUTF_def free_string_def emit_def)

theorem getLastError_optional_message_witness:
  "result (getLastError (answering [] 0 Map.empty None) w0) = Inr None \<and>
   result (getLastError (answering [] 0 [7 \<mapsto> ''no such instance''] (Some 7)) w0)
     = Inr (Some ''no such instance'')"
  using getLastError_optional_message [of "answering [] 0 Map.empty None" w0 None "()" Map.empty]
    getLastError_optional_message [of "answering [] 0 [7 \<mapsto> ''no such instance''] (Some 7)" w0
      "Some 7" "()" "[7 \<mapsto> ''no such instance'']"]
  by (simp add: answering_def w0_def)

text \<open>
  Claim C7. In every array \<open>getNetworkInfos\<close> returns, the element at each index \<open>i\<close>
  below the collector's return value is the object built from the buffer's record at
  index \<open>i\<close>: its key is the text at that record's key pointer, its value the text at that
  record's value pointer, null for a null pointer. The array is as long as the return
  value, so the records left out are the later ones. An array is returned when the buffer
  can be built and the collector has kept to its contract.
\<close>

theorem getNetworkInfos_keeps_order:
  assumes "collect_network_infos L (cap maxLen) (lib w) (heap w) = ((ws, count), l', h')"
  shows "(\<forall>arr w' i. getNetworkInfos L maxLen w = Inr (arr, w') \<and> int i < sint count \<longrightarrow>
            length arr = nat (sint count) \<and>
            i < length (written (replicate (cap maxLen) null_pair) ws) \<and>
            arr ! i =
              Some \<lparr>info_key =
                      Option.bind (key (written (replicate (cap maxLen) null_pair) ws ! i)) h',
                    info_value =
                      Option.bind (value' (written (replicate (cap maxLen) null_pair) ws ! i)) h'\<rparr>) \<and>
         (cap maxLen \<le> vector_room w \<and> honoured maxLen ws count h' \<longrightarrow>
            (\<exists>arr w'. getNetworkInfos L maxLen w = Inr (arr, w')))"
proof -
  let ?buf = "written (replicate (cap maxLen) null_pair) ws"
  have a: "length arr = nat (sint count) \<and> i < length ?buf \<and>
           arr ! i = Some \<lparr>info_key = Option.bind (key (?buf ! i)) h',
                            info_value = Option.bind (value' (?buf ! i)) h'\<rparr>"
    if r: "getNetworkInfos L maxLen w = Inr (arr, w')" and i: "int i < sint count" for arr w' i
  proof -
    from getNetworkInfos_Inr_honoured [OF assms r] have h: "honoured maxLen ws count h'" .
    then have le: "sint count \<le> int (cap maxLen)" by (simp add: honoured_def)
    from r have arr: "arr = map (\<lambda>kv. Some (mk_info h' kv)) (copied maxLen ws count)"
      by (simp add: getNetworkInfos_eq [OF assms h getNetworkInfos_Inr_room [OF r]])
    have len: "length (copied maxLen ws count) = nat (sint count)"
      using le by (rule length_copied)
    have i': "i < nat (sint count)" using i by simp
    have "i < length ?buf" using i le by (simp add: length_written)
    moreover have "arr ! i = Some (mk_info h' (?buf ! i))"
      using i' len le by (simp add: arr copied_nth)
    ultimately show ?thesis using len by (simp add: arr mk_info_def)
  qed
  have b: "\<exists>arr w'. getNetworkInfos L maxLen w = Inr (arr, w')"
    if "cap maxLen \<le> vector_room w" "honoured maxLen ws count h'"
    using getNetworkInfos_eq [OF assms that(2) that(1)] by simp
  from a b show ?thesis by blast
qed

theorem getNetworkInfos_keeps_order_witness:
  "cap 2 \<le> vector_room w0 \<and> honoured 2 two_records 2 three_strings \<and>
   (\<exists>arr w'. getNetworkInfos (answering two_records 2 three_strings None) 2 w0 = Inr (arr, w') \<and>
      arr ! 0 = Some \<lparr>info_key = Some ''name'', info_value = Some ''n1''\<rparr> \<and>
      arr ! 1 = Some \<lparr>info_key = Some ''peers'', info_value = None\<rparr>)"
proof -
  note t = getNetworkInfos_keeps_order [OF collect_answering,
      of two_records 2 three_strings None 2]
  have e: "\<exists>arr w'. getNetworkInfos (answering two_records 2 three_strings None) 2 w0 = Inr (arr, w')"
    using t honoured_two_records room_w0(1) by blast
  have a: "arr ! 0 = Some \<lparr>info_key = Some ''name'', info_value = Some ''n1''\<rparr> \<and>
           arr ! 1 = Some \<lparr>info_key = Some ''peers'', info_value = None\<rparr>"
    if r: "getNetworkInfos (answering two_records 2 three_strings None) 2 w0 = Inr (arr, w')"
    for arr w'
  proof -
    from t r have "\<And>i. int i < sint (2 :: jint) \<Longrightarrow> arr ! i =
      Some \<lparr>info_key = Option.bind (key (written (replicate (cap 2) null_pair) two_records ! i))
                three_strings,
            info_value = Option.bind (value' (written (replicate (cap 2) null_pair) two_records ! i))
                three_strings\<rparr>"
      by blast
    from this [of 0] this [of 1] show ?thesis
      by (simp add: cap_def written_def two_records_def three_strings_def)
  qed
  from e a honoured_two_records room_w0(1) show ?thesis by blast
qed

text \<open>
  Claim C8. \<open>setTunFd\<close> makes one library call, \<open>set_tun_fd\<close> with the instance name and
  the descriptor it was given, framed by taking and giving back the name's characters when
  the name is not null. It makes no other call: it neither closes nor duplicates any
  descriptor, and it leaves the library's strings alone.
\<close>

theorem setTunFd_leaves_descriptor_alone:
  "\<exists>w'. setTunFd L instName fd w = Inr (fst (set_tun_fd L instName fd (lib w)), w') \<and>
     heap w' = heap w \<and>
     drop (length (trace w)) (trace w') =
       map JNI_GetStringUTFChars (non_null [instName]) @ [Lib_set_tun_fd instName fd]
       @ map JNI_ReleaseStringUTFChars (non_null [instName]) \<and>
     Sys_close d \<notin> set (drop (length (trace w)) (trace w')) \<and>
     Sys_dup d \<notin> set (drop (length (trace w)) (trace w'))"
  by (cases instName) (auto simp: setTunFd_eq)

theorem setTunFd_leaves_descriptor_alone_witness:
  "\<exists>w'. setTunFd (answering [] 0 Map.empty None) (Some ''n1'') 42 w0 = Inr (0, w') \<and>
     trace w' = [JNI_GetStringUTFChars ''n1'', Lib_set_tun_fd (Some ''n1'') 42,
                 JNI_ReleaseStringUTFChars ''n1'']"
  using setTunFd_leaves_descriptor_alone [of "answering [] 0 Map.empty None" "Some ''n1''" 42 w0]
  by (auto simp: answering_def w0_def)

text \<open>
  Claim C9. For a null array \<open>retainNetworkInstance\<close> calls \<open>retain_network_instance\<close>
  with a null pointer and count 0. For a non-null array it passes the names as they are, in
  their order, with their number as count (and a null pointer when that number is 0).
\<close>

theorem retainNetworkInstance_passes_names:
  "retainNetworkInstance L None w =
     Inr (fst (retain_network_instance L None 0 (lib w)),
          w\<lparr>lib := snd (retain_network_instance L None 0 (lib w)),
            trace := trace w @ [Lib_retain_network_instance None 0]\<rparr>) \<and>
   retainNetworkInstance L (Some a) w =
     Inr (fst (retain_network_instance L (if a = [] then None else Some a) (length a) (lib w)),
          w\<lparr>lib := snd (retain_network_instance L (if a = [] then None else Some a)
                         (length a) (lib w)),
            trace := trace w @ map JNI_GetStringUTFChars (non_null a)
                     @ [Lib_retain_network_instance (if a = [] then None else Some a) (length a)]
                     @ map JNI_ReleaseStringUTFChars (non_null a)\<rparr>)"
  by (simp add: retainNetworkInstance_eq marshalled_def names_of_def)

theorem retainNetworkInstance_passes_names_witness:
  "retainNetworkInstance (answering [] 0 Map.empty None) None w0 =
     Inr (0, w0\<lparr>trace := [Lib_retain_network_instance None 0]\<rparr>) \<and>
   retainNetworkInstance (answering [] 0 Map.empty None) (Some [Some ''n1'', None, Some ''n2'']) w0 =
     Inr (3, w0\<lparr>trace :=
       [JNI_GetStringUTFChars ''n1'', JNI_GetStringUTFChars ''n2'',
        Lib_retain_network_instance (Some [Some ''n1'', None, Some ''n2'']) 3,
        JNI_ReleaseStringUTFChars ''n1'', JNI_ReleaseStringUTFChars ''n2'']\<rparr>)"
  using retainNetworkInstance_passes_names [of "answering [] 0 Map.empty None" w0
      "[Some ''n1'', None, Some ''n2'']"]
  by (simp add: answering_def w0_def)

text \<open>
  Claim C10. Given a null string, \<open>parseConfig\<close>, \<open>runNetworkInstance\<close> and \<open>setTunFd\<close>
  call the library with a null pointer and return its status; they make no other call.
\<close>

theorem null_argument_passed_through:
  "parseConfig L None w =
     Inr (fst (parse_config L None (lib w)),
          w\<lparr>lib := snd (parse_config L None (lib w)),
            trace := trace w @ [Lib_parse_config None]\<rparr>) \<and>
   runNetworkInstance L None w =
     Inr (fst (run_network_instance L None (lib w)),
          w\<lparr>lib := snd (run_network_instance L None (lib w)),
            trace := trace w @ [Lib_run_network_instance None]\<rparr>) \<and>
   setTunFd L None fd w =
     Inr (fst (set_tun_fd L None fd (lib w)),
          w\<lparr>lib := snd (set_tun_fd L None fd (lib w)),
            trace := trace w @ [Lib_set_tun_fd None fd]\<rparr>)"
  by (simp add: parseConfig_eq runNetworkInstance_eq setTunFd_eq)

theorem null_argument_passed_through_witness:
  "parseConfig (answering [] 0 Map.empty None) None w0 =
     Inr (- 1, w0\<lparr>trace := [Lib_parse_config None]\<rparr>) \<and>
   runNetworkInstance (answering [] 0 Map.empty None) None w0 =
     Inr (- 1, w0\<lparr>trace := [Lib_run_network_instance None]\<rparr>) \<and>
   setTunFd (answering [] 0 Map.empty None) None 42 w0 =
     Inr (- 1, w0\<lparr>trace := [Lib_set_tun_fd None 42]\<rparr>)"
  using null_argument_passed_through [of "answering [] 0 Map.empty None" w0 42]
  by (simp add: answering_def w0_def)

end
